theory Spec2Isabelle
  imports Complex_Main
begin

section \<open>JavaScript numbers\<close>

text \<open>
  The camera stores four JavaScript numbers and computes with \<open>+\<close>, \<open>-\<close>, \<open>*\<close>, \<open>/\<close>,
  \<open>>=\<close> and truthiness. A number is a finite value, an infinity or NaN. Finite values
  are exact reals: rounding to 53 bits, overflow to an infinity and the sign of zero
  are not modelled. The special values are, because \<open>(Date.now() - start) / 0\<close>
  decides whether an animation of duration 0 is over.
\<close>

datatype number = Fin real | PosInf | NegInf | NaN

fun js_neg :: "number \<Rightarrow> number" where
  "js_neg (Fin a) = Fin (- a)"
| "js_neg PosInf = NegInf"
| "js_neg NegInf = PosInf"
| "js_neg NaN = NaN"

fun js_add :: "number \<Rightarrow> number \<Rightarrow> number" where
  "js_add NaN _ = NaN"
| "js_add _ NaN = NaN"
| "js_add (Fin a) (Fin b) = Fin (a + b)"
| "js_add (Fin a) PosInf = PosInf"
| "js_add (Fin a) NegInf = NegInf"
| "js_add PosInf (Fin b) = PosInf"
| "js_add NegInf (Fin b) = NegInf"
| "js_add PosInf PosInf = PosInf"
| "js_add NegInf NegInf = NegInf"
| "js_add PosInf NegInf = NaN"
| "js_add NegInf PosInf = NaN"

definition js_sub :: "number \<Rightarrow> number \<Rightarrow> number" where
  "js_sub a b = js_add a (js_neg b)"

text \<open>The sign of a number that is not NaN; zero counts as positive.\<close>

fun negative :: "number \<Rightarrow> bool" where
  "negative (Fin a) = (a < 0)"
| "negative NegInf = True"
| "negative _ = False"

fun is_zero :: "number \<Rightarrow> bool" where
  "is_zero (Fin a) = (a = 0)"
| "is_zero _ = False"

definition signed_inf :: "bool \<Rightarrow> number" where
  "signed_inf neg = (if neg then NegInf else PosInf)"

fun js_mul :: "number \<Rightarrow> number \<Rightarrow> number" where
  "js_mul NaN _ = NaN"
| "js_mul _ NaN = NaN"
| "js_mul (Fin a) (Fin b) = Fin (a * b)"
| "js_mul a b =
     (if is_zero a \<or> is_zero b then NaN else signed_inf (negative a \<noteq> negative b))"

fun js_div :: "number \<Rightarrow> number \<Rightarrow> number" where
  "js_div NaN _ = NaN"
| "js_div _ NaN = NaN"
| "js_div (Fin a) (Fin b) =
     (if b = 0 then (if a = 0 then NaN else signed_inf (a < 0)) else Fin (a / b))"
| "js_div (Fin a) _ = Fin 0"
| "js_div a (Fin b) = signed_inf (negative a \<noteq> (b < 0))"
| "js_div _ _ = NaN"

text \<open>\<open>a >= b\<close>: false as soon as one side is NaN.\<close>

fun js_ge :: "number \<Rightarrow> number \<Rightarrow> bool" where
  "js_ge NaN _ = False"
| "js_ge _ NaN = False"
| "js_ge (Fin a) (Fin b) = (b \<le> a)"
| "js_ge PosInf _ = True"
| "js_ge _ NegInf = True"
| "js_ge _ _ = False"

text \<open>Truthiness of a number: \<open>0\<close> and \<open>NaN\<close> are falsy.\<close>

fun truthy :: "number \<Rightarrow> bool" where
  "truthy (Fin a) = (a \<noteq> 0)"
| "truthy NaN = False"
| "truthy _ = True"

section \<open>Objects of the camera\<close>

text \<open>
  The four keys the camera reads with \<open>'x' in state\<close>. A state object passed to
  \<open>setState\<close> or \<open>animate\<close> is a partial map from these keys to numbers: a key is
  present or absent. The object \<open>getState()\<close> returns has all four.
\<close>

datatype key = KX | KY | KAngle | KRatio

type_synonym partial = "key \<Rightarrow> number option"

record state =
  st_x :: number
  st_y :: number
  st_angle :: number
  st_ratio :: number

fun get :: "state \<Rightarrow> key \<Rightarrow> number" where
  "get s KX = st_x s"
| "get s KY = st_y s"
| "get s KAngle = st_angle s"
| "get s KRatio = st_ratio s"

text \<open>
  The \<open>options\<close> argument is read for its \<open>duration\<close> key only: \<open>None\<close> is an
  omitted \<open>options\<close> or one without the key. A \<open>callback\<close> argument is a function,
  here named by a number; \<open>None\<close> is an omitted one.
\<close>

type_synonym options = "number option"

type_synonym callback = "nat option"

text \<open>
  The closure \<open>fn\<close> that \<open>animate\<close> hands to \<open>requestAnimationFrame\<close> captures
  \<open>start\<close>, \<open>initialState\<close>, \<open>state\<close> and the merged \<open>options\<close>.
\<close>

record frame_fn =
  fn_start :: int
  fn_initialState :: state
  fn_state :: partial
  fn_duration :: number

text \<open>
  What a subscriber of \<open>"updated"\<close> may do when it is notified: call one of the
  camera's animating methods. (A subscriber that calls \<open>setState\<close> would notify
  itself again; such subscribers are outside this model.) A subscriber sees what
  \<open>isAnimated()\<close> returns at that moment and the payload.
\<close>

datatype call =
    Animate partial options callback
  | Pan number number options callback
  | Zoom "number option" options callback

type_synonym listener = "bool \<Rightarrow> state \<Rightarrow> call list"

text \<open>
  The camera with the part of the host it talks to: the \<open>EventEmitter\<close> it extends
  (the subscribers of \<open>"updated"\<close> in the order they were added, with a trace of the
  events emitted and of the deliveries made), \<open>Date.now()\<close>, and the list of
  animation frame callbacks (request ids are positive and never issued twice).
  \<open>invoked\<close> is the trace of the \<open>callback\<close> arguments that have been called.
\<close>

record camera =
  cam_x :: number
  cam_y :: number
  cam_angle :: number
  cam_ratio :: number
  nextFrame :: "nat option"
  listeners :: "listener list"
  clock :: int
  last_id :: nat
  callbacks :: "(nat \<times> frame_fn) list"
  emitted :: "state list"
  delivered :: "(nat \<times> bool \<times> state) list"
  invoked :: "nat list"

definition constructor :: camera where
  "constructor =
     \<lparr>cam_x = Fin 0, cam_y = Fin 0, cam_angle = Fin 0, cam_ratio = Fin 1,
      nextFrame = None, listeners = [], clock = 0, last_id = 0, callbacks = [],
      emitted = [], delivered = [], invoked = []\<rparr>"

fun field :: "key \<Rightarrow> camera \<Rightarrow> number" where
  "field KX c = cam_x c"
| "field KY c = cam_y c"
| "field KAngle c = cam_angle c"
| "field KRatio c = cam_ratio c"

section \<open>The host\<close>

definition requestAnimationFrame :: "frame_fn \<Rightarrow> camera \<Rightarrow> nat \<times> camera" where
  "requestAnimationFrame f c =
     (Suc (last_id c),
      c\<lparr>last_id := Suc (last_id c), callbacks := callbacks c @ [(Suc (last_id c), f)]\<rparr>)"

definition cancelAnimationFrame :: "nat \<Rightarrow> camera \<Rightarrow> camera" where
  "cancelAnimationFrame h c = c\<lparr>callbacks := filter (\<lambda>e. fst e \<noteq> h) (callbacks c)\<rparr>"

text \<open>Modelled from the spec: \<open>assign\<close> of \<open>./utils\<close>, which merges the options over
  \<open>ANIMATE_DEFAULTS = {duration: 150}\<close>.\<close>

definition ANIMATE_DEFAULTS :: number where
  "ANIMATE_DEFAULTS = Fin 150"

definition assign :: "number \<Rightarrow> options \<Rightarrow> number" where
  "assign dflt opts = (case opts of None \<Rightarrow> dflt | Some d \<Rightarrow> d)"

text \<open>Modelled from the spec: \<open>quadraticInOut\<close> of \<open>./easings\<close>, a quadratic ease-in-out
  curve on \<open>[0, 1]\<close> with \<open>easing(0) = 0\<close> and \<open>easing(1) = 1\<close>, accelerating on the first
  half and decelerating on the second. The functions below take the easing as a
  parameter \<open>E\<close>; this one instantiates it in examples.\<close>

fun quadraticInOut :: "number \<Rightarrow> number" where
  "quadraticInOut (Fin a) =
     Fin (if 2 * a < 1 then 2 * a * a else 1 - 2 * (1 - a) * (1 - a))"
| "quadraticInOut _ = NaN"

section \<open>The Camera class\<close>

definition getState :: "camera \<Rightarrow> state" where
  "getState c = \<lparr>st_x = cam_x c, st_y = cam_y c, st_angle = cam_angle c, st_ratio = cam_ratio c\<rparr>"

text \<open>\<open>!!this.nextFrame\<close>: \<open>null\<close> and the number \<open>0\<close> are falsy.\<close>

definition isAnimated :: "camera \<Rightarrow> bool" where
  "isAnimated c = (case nextFrame c of None \<Rightarrow> False | Some h \<Rightarrow> h \<noteq> 0)"

definition animate_fn :: "partial \<Rightarrow> options \<Rightarrow> camera \<Rightarrow> frame_fn" where
  "animate_fn st opts c =
     \<lparr>fn_start = clock c, fn_initialState = getState c, fn_state = st,
      fn_duration = assign ANIMATE_DEFAULTS opts\<rparr>"

definition animate :: "partial \<Rightarrow> options \<Rightarrow> callback \<Rightarrow> camera \<Rightarrow> camera" where
  "animate st opts cb c =
     (let c1 = (case nextFrame c of
                  None \<Rightarrow> c
                | Some h \<Rightarrow> if h \<noteq> 0 then cancelAnimationFrame h c else c);
          (h, c2) = requestAnimationFrame (animate_fn st opts c1) c1
      in c2\<lparr>nextFrame := Some h\<rparr>)"

definition pan :: "number \<Rightarrow> number \<Rightarrow> options \<Rightarrow> callback \<Rightarrow> camera \<Rightarrow> camera" where
  "pan dx dy opts cb c =
     (let targetX = js_sub (cam_x c) dx;
          targetY = js_sub (cam_y c) dy
      in animate [KX \<mapsto> targetX, KY \<mapsto> targetY] opts cb c)"

text \<open>\<open>factor || 1.5\<close>: an omitted factor is \<open>undefined\<close>, which is falsy.\<close>

definition zoom :: "number option \<Rightarrow> options \<Rightarrow> callback \<Rightarrow> camera \<Rightarrow> camera" where
  "zoom factor opts cb c =
     (let factor' = (case factor of None \<Rightarrow> Fin 1.5
                     | Some f \<Rightarrow> if truthy f then f else Fin 1.5);
          targetRatio = js_div (cam_ratio c) factor'
      in animate [KRatio \<mapsto> targetRatio] opts cb c)"

fun call_do :: "call \<Rightarrow> camera \<Rightarrow> camera" where
  "call_do (Animate st opts cb) c = animate st opts cb c"
| "call_do (Pan dx dy opts cb) c = pan dx dy opts cb c"
| "call_do (Zoom factor opts cb) c = zoom factor opts cb c"

text \<open>
  \<open>emit('updated', payload)\<close>: every subscriber is called in turn, synchronously, and
  what it calls runs before the next subscriber is notified.
\<close>

fun notify :: "nat \<Rightarrow> listener list \<Rightarrow> state \<Rightarrow> camera \<Rightarrow> camera" where
  "notify i [] s c = c"
| "notify i (l # ls) s c =
     notify (Suc i) ls s
       (fold call_do (l (isAnimated c) s)
          (c\<lparr>delivered := delivered c @ [(i, isAnimated c, s)]\<rparr>))"

definition emit_updated :: "state \<Rightarrow> camera \<Rightarrow> camera" where
  "emit_updated s c = notify 0 (listeners c) s (c\<lparr>emitted := emitted c @ [s]\<rparr>)"

definition assign_fields :: "partial \<Rightarrow> camera \<Rightarrow> camera" where
  "assign_fields st c =
     (let c1 = (case st KX of Some v \<Rightarrow> c\<lparr>cam_x := v\<rparr> | None \<Rightarrow> c);
          c2 = (case st KY of Some v \<Rightarrow> c1\<lparr>cam_y := v\<rparr> | None \<Rightarrow> c1);
          c3 = (case st KAngle of Some v \<Rightarrow> c2\<lparr>cam_angle := v\<rparr> | None \<Rightarrow> c2)
      in (case st KRatio of Some v \<Rightarrow> c3\<lparr>cam_ratio := v\<rparr> | None \<Rightarrow> c3))"

definition setState :: "partial \<Rightarrow> camera \<Rightarrow> camera" where
  "setState st c = (let c' = assign_fields st c in emit_updated (getState c') c')"

text \<open>The elapsed fraction \<open>t = (Date.now() - start) / options.duration\<close>.\<close>

definition elapsed :: "frame_fn \<Rightarrow> camera \<Rightarrow> number" where
  "elapsed f c = js_div (Fin (of_int (clock c - fn_start f))) (fn_duration f)"

definition newState :: "(number \<Rightarrow> number) \<Rightarrow> frame_fn \<Rightarrow> number \<Rightarrow> partial" where
  "newState E f t k =
     (case fn_state f k of
        None \<Rightarrow> None
      | Some v \<Rightarrow>
          Some (js_add (get (fn_initialState f) k)
                  (js_mul (js_sub v (get (fn_initialState f) k)) (E t))))"

definition fn :: "(number \<Rightarrow> number) \<Rightarrow> frame_fn \<Rightarrow> camera \<Rightarrow> camera" where
  "fn E f c =
     (let t = elapsed f c in
      if js_ge t (Fin 1) then setState (fn_state f) (c\<lparr>nextFrame := None\<rparr>)
      else
        (let c1 = setState (newState E f t) c;
             (h, c2) = requestAnimationFrame f c1
         in c2\<lparr>nextFrame := Some h\<rparr>))"

section \<open>Runs\<close>

text \<open>
  The host runs the animation frame callbacks in the order they were requested; a
  cancelled one is gone from the list. \<open>frame\<close> runs the oldest pending callback.
\<close>

definition frame :: "(number \<Rightarrow> number) \<Rightarrow> camera \<Rightarrow> camera" where
  "frame E c =
     (case callbacks c of
        [] \<Rightarrow> c
      | (h, f) # rest \<Rightarrow> fn E f (c\<lparr>callbacks := rest\<rparr>))"

text \<open>
  What happens to a camera from outside: a subscriber is added with \<open>on\<close>, a method is
  called, or the host runs a frame callback. Every event carries the time
  \<open>Date.now()\<close> returns while it is handled.
\<close>

datatype action = On listener | Do call | SetState partial | RunFrame

fun step :: "(number \<Rightarrow> number) \<Rightarrow> int \<times> action \<Rightarrow> camera \<Rightarrow> camera" where
  "step E (now, On l) c = c\<lparr>clock := now, listeners := listeners c @ [l]\<rparr>"
| "step E (now, Do a) c = call_do a (c\<lparr>clock := now\<rparr>)"
| "step E (now, SetState st) c = setState st (c\<lparr>clock := now\<rparr>)"
| "step E (now, RunFrame) c = frame E (c\<lparr>clock := now\<rparr>)"

definition run :: "(number \<Rightarrow> number) \<Rightarrow> (int \<times> action) list \<Rightarrow> camera \<Rightarrow> camera" where
  "run E evs c = fold (step E) evs c"


section \<open>Predicates of the statements\<close>

text \<open>The callback list once \<open>animate\<close> has cancelled the request \<open>this.nextFrame\<close> names.\<close>

definition cancel_pending :: "camera \<Rightarrow> (nat \<times> frame_fn) list" where
  "cancel_pending c =
     (case nextFrame c of
        None \<Rightarrow> callbacks c
      | Some h \<Rightarrow> if h \<noteq> 0 then filter (\<lambda>e. fst e \<noteq> h) (callbacks c) else callbacks c)"

text \<open>No subscriber reacts to the payload \<open>s\<close> by calling a method of the camera.\<close>

definition quiet :: "listener list \<Rightarrow> state \<Rightarrow> bool" where
  "quiet ls s = list_all (\<lambda>l. l True s = [] \<and> l False s = []) ls"

text \<open>A subscriber that only observes: it never calls a method of the camera.\<close>

definition observer :: "listener \<Rightarrow> bool" where
  "observer l = (\<forall>b s. l b s = [])"

text \<open>\<open>this.nextFrame\<close> is not the number \<open>0\<close>, which no request is given as its id.\<close>

definition handle_ok :: "camera \<Rightarrow> bool" where
  "handle_ok c = (nextFrame c \<noteq> Some 0)"

text \<open>No animation is in flight and every subscriber only observes.\<close>

definition idle :: "camera \<Rightarrow> bool" where
  "idle c = (nextFrame c = None \<and> callbacks c = [] \<and> list_all observer (listeners c))"

text \<open>At most one frame callback is pending, and it is the one \<open>this.nextFrame\<close> names.\<close>

definition single_flight :: "camera \<Rightarrow> bool" where
  "single_flight c =
     (length (callbacks c) \<le> 1 \<and>
      list_all (\<lambda>e. nextFrame c = Some (fst e) \<and> fst e \<noteq> 0) (callbacks c))"

text \<open>An action that calls no animating method and adds no subscriber that would.\<close>

fun calm :: "action \<Rightarrow> bool" where
  "calm (On l) = observer l"
| "calm (Do a) = False"
| "calm (SetState st) = True"
| "calm RunFrame = True"

text \<open>An action that adds no subscriber but one that only observes.\<close>

fun orderly :: "action \<Rightarrow> bool" where
  "orderly (On l) = observer l"
| "orderly a = True"

text \<open>The events that run one frame callback at each of the times \<open>ts\<close>.\<close>

definition frames :: "int list \<Rightarrow> (int \<times> action) list" where
  "frames ts = map (\<lambda>now. (now, RunFrame)) ts"

section \<open>Cameras and runs of the examples\<close>

text \<open>A new camera on which \<open>animate({x: 10})\<close> has been called at time 0.\<close>

definition animating_camera :: camera where
  "animating_camera = animate [KX \<mapsto> Fin 10] None None constructor"


text \<open>A subscriber that calls \<open>animate({x: 100}, {duration: 100})\<close> when it is notified
  of a state with \<open>x = 5\<close>.\<close>

definition reentrant :: listener where
  "reentrant b s =
     (if st_x s = Fin 5 then [Animate [KX \<mapsto> Fin 100] (Some (Fin 100)) None] else [])"

text \<open>That subscriber is added to a new camera, \<open>animate({x: 10}, {duration: 1000})\<close> is
  called at time 0, and the host runs a frame at time 500.\<close>

definition superseding_run :: "(int \<times> action) list" where
  "superseding_run =
     [(0, On reentrant),
      (0, Do (Animate [KX \<mapsto> Fin 10] (Some (Fin 1000)) None)),
      (500, RunFrame)]"




section \<open>What each method leaves unchanged\<close>


lemma cancel_frame:
  "cam_x (cancelAnimationFrame h c) = cam_x c"
  "cam_y (cancelAnimationFrame h c) = cam_y c"
  "cam_angle (cancelAnimationFrame h c) = cam_angle c"
  "cam_ratio (cancelAnimationFrame h c) = cam_ratio c"
  "nextFrame (cancelAnimationFrame h c) = nextFrame c"
  "listeners (cancelAnimationFrame h c) = listeners c"
  "clock (cancelAnimationFrame h c) = clock c"
  "last_id (cancelAnimationFrame h c) = last_id c"
  "emitted (cancelAnimationFrame h c) = emitted c"
  "delivered (cancelAnimationFrame h c) = delivered c"
  "invoked (cancelAnimationFrame h c) = invoked c"
  by (simp_all add: cancelAnimationFrame_def)

lemma animate_frame:
  "cam_x (animate st opts cb c) = cam_x c"
  "cam_y (animate st opts cb c) = cam_y c"
  "cam_angle (animate st opts cb c) = cam_angle c"
  "cam_ratio (animate st opts cb c) = cam_ratio c"
  "listeners (animate st opts cb c) = listeners c"
  "clock (animate st opts cb c) = clock c"
  "emitted (animate st opts cb c) = emitted c"
  "delivered (animate st opts cb c) = delivered c"
  "invoked (animate st opts cb c) = invoked c"
  by (simp_all add: animate_def requestAnimationFrame_def cancelAnimationFrame_def Let_def
      split: option.split)

lemma animate_handle:
  "nextFrame (animate st opts cb c) = Some (Suc (last_id c))"
  "last_id (animate st opts cb c) = Suc (last_id c)"
  by (simp_all add: animate_def requestAnimationFrame_def cancelAnimationFrame_def Let_def
      split: option.split)

lemma animate_callbacks:
  "callbacks (animate st opts cb c) =
     cancel_pending c @ [(Suc (last_id c), animate_fn st opts c)]"
  by (simp add: animate_def requestAnimationFrame_def cancelAnimationFrame_def Let_def
      cancel_pending_def animate_fn_def getState_def split: option.split)


lemma pan_frame:
  "cam_x (pan dx dy opts cb c) = cam_x c"
  "cam_y (pan dx dy opts cb c) = cam_y c"
  "cam_angle (pan dx dy opts cb c) = cam_angle c"
  "cam_ratio (pan dx dy opts cb c) = cam_ratio c"
  "listeners (pan dx dy opts cb c) = listeners c"
  "clock (pan dx dy opts cb c) = clock c"
  "emitted (pan dx dy opts cb c) = emitted c"
  "delivered (pan dx dy opts cb c) = delivered c"
  "invoked (pan dx dy opts cb c) = invoked c"
  "nextFrame (pan dx dy opts cb c) = Some (Suc (last_id c))"
  "last_id (pan dx dy opts cb c) = Suc (last_id c)"
  by (simp_all add: pan_def Let_def animate_frame animate_handle)

lemma zoom_frame:
  "cam_x (zoom fa opts cb c) = cam_x c"
  "cam_y (zoom fa opts cb c) = cam_y c"
  "cam_angle (zoom fa opts cb c) = cam_angle c"
  "cam_ratio (zoom fa opts cb c) = cam_ratio c"
  "listeners (zoom fa opts cb c) = listeners c"
  "clock (zoom fa opts cb c) = clock c"
  "emitted (zoom fa opts cb c) = emitted c"
  "delivered (zoom fa opts cb c) = delivered c"
  "invoked (zoom fa opts cb c) = invoked c"
  "nextFrame (zoom fa opts cb c) = Some (Suc (last_id c))"
  "last_id (zoom fa opts cb c) = Suc (last_id c)"
  by (simp_all add: zoom_def Let_def animate_frame animate_handle)

lemma call_do_frame:
  "cam_x (call_do a c) = cam_x c"
  "cam_y (call_do a c) = cam_y c"
  "cam_angle (call_do a c) = cam_angle c"
  "cam_ratio (call_do a c) = cam_ratio c"
  "listeners (call_do a c) = listeners c"
  "clock (call_do a c) = clock c"
  "emitted (call_do a c) = emitted c"
  "delivered (call_do a c) = delivered c"
  "invoked (call_do a c) = invoked c"
  "nextFrame (call_do a c) = Some (Suc (last_id c))"
  "last_id (call_do a c) = Suc (last_id c)"
  by (cases a; simp add: animate_frame animate_handle pan_frame zoom_frame)+

lemma calls_frame:
  "cam_x (fold call_do as c) = cam_x c"
  "cam_y (fold call_do as c) = cam_y c"
  "cam_angle (fold call_do as c) = cam_angle c"
  "cam_ratio (fold call_do as c) = cam_ratio c"
  "listeners (fold call_do as c) = listeners c"
  "clock (fold call_do as c) = clock c"
  "emitted (fold call_do as c) = emitted c"
  "delivered (fold call_do as c) = delivered c"
  "invoked (fold call_do as c) = invoked c"
  by (induction as arbitrary: c; simp add: call_do_frame)+

lemma notify_frame:
  "cam_x (notify i ls s c) = cam_x c"
  "cam_y (notify i ls s c) = cam_y c"
  "cam_angle (notify i ls s c) = cam_angle c"
  "cam_ratio (notify i ls s c) = cam_ratio c"
  "listeners (notify i ls s c) = listeners c"
  "clock (notify i ls s c) = clock c"
  "emitted (notify i ls s c) = emitted c"
  "invoked (notify i ls s c) = invoked c"
  by (induction ls arbitrary: i c; simp add: calls_frame)+

lemma notify_delivered:
  "map (\<lambda>d. (fst d, snd (snd d))) (delivered (notify i ls s c)) =
     map (\<lambda>d. (fst d, snd (snd d))) (delivered c) @ map (\<lambda>j. (j, s)) [i..<i + length ls]"
proof (induction ls arbitrary: i c)
  case Nil
  show ?case by simp
next
  case (Cons l ls)
  have "[i..<i + length (l # ls)] = i # [Suc i..<Suc i + length ls]"
    by (simp add: upt_rec)
  then show ?case
    by (simp add: Cons.IH calls_frame)
qed

lemma isAnimated_delivered:
  "isAnimated (c\<lparr>delivered := d\<rparr>) = isAnimated c"
  by (simp add: isAnimated_def)

lemma notify_quiet:
  "quiet ls s \<Longrightarrow>
   notify i ls s c =
     c\<lparr>delivered := delivered c @ map (\<lambda>j. (j, isAnimated c, s)) [i..<i + length ls]\<rparr>"
proof (induction ls arbitrary: i c)
  case Nil
  show ?case by simp
next
  case (Cons l ls)
  let ?c = "c\<lparr>delivered := delivered c @ [(i, isAnimated c, s)]\<rparr>"
  have upt: "[i..<i + length (l # ls)] = i # [Suc i..<Suc i + length ls]"
    by (simp add: upt_rec)
  from Cons.prems have q: "quiet ls s" and l: "l (isAnimated c) s = []"
    by (cases "isAnimated c"; simp add: quiet_def)+
  have "notify i (l # ls) s c = notify (Suc i) ls s ?c"
    by (simp add: l)
  also have "\<dots> =
      ?c\<lparr>delivered := delivered ?c @ map (\<lambda>j. (j, isAnimated ?c, s)) [Suc i..<Suc i + length ls]\<rparr>"
    by (rule Cons.IH [OF q])
  also have "\<dots> =
      c\<lparr>delivered := delivered c @ map (\<lambda>j. (j, isAnimated c, s)) [i..<i + length (l # ls)]\<rparr>"
    unfolding upt by (simp add: isAnimated_delivered)
  finally show ?case .
qed


lemma assign_fields_field:
  "field k (assign_fields st c) = (case st k of Some v \<Rightarrow> v | None \<Rightarrow> field k c)"
  by (cases k; simp add: assign_fields_def Let_def split: option.split)

lemma assign_fields_frame:
  "nextFrame (assign_fields st c) = nextFrame c"
  "listeners (assign_fields st c) = listeners c"
  "clock (assign_fields st c) = clock c"
  "last_id (assign_fields st c) = last_id c"
  "callbacks (assign_fields st c) = callbacks c"
  "emitted (assign_fields st c) = emitted c"
  "delivered (assign_fields st c) = delivered c"
  "invoked (assign_fields st c) = invoked c"
  by (simp_all add: assign_fields_def Let_def split: option.split)

lemma field_notify: "field k (notify i ls s c) = field k c"
  by (cases k; simp add: notify_frame)

lemma field_emitted_update: "field k (c\<lparr>emitted := e\<rparr>) = field k c"
  by (cases k; simp)

lemma getState_get: "get (getState c) k = field k c"
  by (cases k; simp add: getState_def)

lemma getState_eqI: "(\<And>k. field k c = field k c') \<Longrightarrow> getState c = getState c'"
proof -
  assume h: "\<And>k. field k c = field k c'"
  from h [of KX] h [of KY] h [of KAngle] h [of KRatio]
  show ?thesis by (simp add: getState_def)
qed

lemma setState_field:
  "field k (setState st c) = (case st k of Some v \<Rightarrow> v | None \<Rightarrow> field k c)"
  by (simp add: setState_def Let_def emit_updated_def field_notify field_emitted_update
      assign_fields_field)

lemma setState_getState:
  "getState (setState st c) = getState (assign_fields st c)"
  by (rule getState_eqI) (simp add: setState_field assign_fields_field)

lemma setState_frame:
  "listeners (setState st c) = listeners c"
  "clock (setState st c) = clock c"
  "invoked (setState st c) = invoked c"
  by (simp_all add: setState_def Let_def emit_updated_def notify_frame assign_fields_frame)

lemma setState_emitted:
  "emitted (setState st c) = emitted c @ [getState (setState st c)]"
  by (simp add: setState_getState)
    (simp add: setState_def Let_def emit_updated_def notify_frame assign_fields_frame)

lemma setState_delivered:
  "map (\<lambda>d. (fst d, snd (snd d))) (delivered (setState st c)) =
     map (\<lambda>d. (fst d, snd (snd d))) (delivered c) @
     map (\<lambda>j. (j, getState (setState st c))) [0..<length (listeners c)]"
  by (simp add: setState_getState)
    (simp add: setState_def Let_def emit_updated_def notify_delivered assign_fields_frame)

lemma setState_quiet:
  assumes "quiet (listeners c) (getState (assign_fields st c))"
  shows "setState st c =
     (assign_fields st c)
       \<lparr>emitted := emitted c @ [getState (assign_fields st c)],
        delivered := delivered c @
          map (\<lambda>j. (j, isAnimated c, getState (assign_fields st c))) [0..<length (listeners c)]\<rparr>"
  using assms
  by (simp add: setState_def Let_def emit_updated_def notify_quiet assign_fields_frame
      isAnimated_def)

section \<open>setState\<close>

text \<open>
  C3. \<open>setState(p)\<close> sets every field of \<open>x\<close>, \<open>y\<close>, \<open>angle\<close>, \<open>ratio\<close> that is a key of
  \<open>p\<close> to the value \<open>p\<close> gives it and leaves every other field as it was. From the
  state \<open>(0, 0, 0, 1)\<close> of a new camera, \<open>setState({x: 5})\<close> yields \<open>(5, 0, 0, 1)\<close>.
\<close>

theorem C3_setState_partial_update:
  "(\<forall>k. field k (setState p c) = (case p k of Some v \<Rightarrow> v | None \<Rightarrow> field k c)) \<and>
   getState (setState [KX \<mapsto> Fin 5] constructor) =
     \<lparr>st_x = Fin 5, st_y = Fin 0, st_angle = Fin 0, st_ratio = Fin 1\<rparr>"
proof
  show "\<forall>k. field k (setState p c) = (case p k of Some v \<Rightarrow> v | None \<Rightarrow> field k c)"
    by (simp add: setState_field)
  show "getState (setState [KX \<mapsto> Fin 5] constructor) =
     \<lparr>st_x = Fin 5, st_y = Fin 0, st_angle = Fin 0, st_ratio = Fin 1\<rparr>"
    unfolding setState_getState by (simp add: assign_fields_def getState_def constructor_def)
qed

text \<open>
  C6. One call of \<open>setState(p)\<close> emits \<open>"updated"\<close> once. The payload is the snapshot of
  all four fields after \<open>p\<close> has been applied, and in the camera \<open>setState\<close> returns
  every subscriber has received it once, in the order of subscription. \<open>setState\<close>
  is total: it has no failing branch.
\<close>

theorem C6_setState_emits_once:
  "emitted (setState p c) = emitted c @ [getState (setState p c)] \<and>
   (\<forall>k. get (getState (setState p c)) k = (case p k of Some v \<Rightarrow> v | None \<Rightarrow> field k c)) \<and>
   map (\<lambda>d. (fst d, snd (snd d))) (delivered (setState p c)) =
     map (\<lambda>d. (fst d, snd (snd d))) (delivered c) @
     map (\<lambda>j. (j, getState (setState p c))) [0..<length (listeners c)] \<and>
   listeners (setState p c) = listeners c"
proof (intro conjI)
  show "emitted (setState p c) = emitted c @ [getState (setState p c)]"
    by (rule setState_emitted)
  show "\<forall>k. get (getState (setState p c)) k = (case p k of Some v \<Rightarrow> v | None \<Rightarrow> field k c)"
    by (simp add: getState_get setState_field)
  show "map (\<lambda>d. (fst d, snd (snd d))) (delivered (setState p c)) =
     map (\<lambda>d. (fst d, snd (snd d))) (delivered c) @
     map (\<lambda>j. (j, getState (setState p c))) [0..<length (listeners c)]"
    by (rule setState_delivered)
  show "listeners (setState p c) = listeners c"
    by (rule setState_frame)
qed

section \<open>The frames of an animation\<close>

lemma elapsed_upd:
  "elapsed f (c\<lparr>callbacks := r\<rparr>) = elapsed f c"
  "elapsed f (c\<lparr>nextFrame := n\<rparr>) = elapsed f c"
  by (simp_all add: elapsed_def)

lemma field_upd:
  "field k (c\<lparr>callbacks := r\<rparr>) = field k c"
  "field k (c\<lparr>nextFrame := n\<rparr>) = field k c"
  "field k (c\<lparr>last_id := i\<rparr>) = field k c"
  "field k (c\<lparr>clock := t\<rparr>) = field k c"
  by (cases k; simp)+

lemma fn_final:
  "js_ge (elapsed f c) (Fin 1) \<Longrightarrow> fn E f c = setState (fn_state f) (c\<lparr>nextFrame := None\<rparr>)"
  by (simp add: fn_def)

lemma fn_interpolate:
  "\<not> js_ge (elapsed f c) (Fin 1) \<Longrightarrow>
   fn E f c =
     (setState (newState E f (elapsed f c)) c)
       \<lparr>last_id := Suc (last_id (setState (newState E f (elapsed f c)) c)),
        callbacks := callbacks (setState (newState E f (elapsed f c)) c) @
          [(Suc (last_id (setState (newState E f (elapsed f c)) c)), f)],
        nextFrame := Some (Suc (last_id (setState (newState E f (elapsed f c)) c)))\<rparr>"
  by (simp add: fn_def requestAnimationFrame_def Let_def)

lemma fn_field_final:
  "js_ge (elapsed f c) (Fin 1) \<Longrightarrow>
   field k (fn E f c) = (case fn_state f k of Some v \<Rightarrow> v | None \<Rightarrow> field k c)"
  by (simp add: fn_final setState_field field_upd split: option.split)

lemma fn_field_interpolate:
  "\<not> js_ge (elapsed f c) (Fin 1) \<Longrightarrow>
   field k (fn E f c) = (case newState E f (elapsed f c) k of Some v \<Rightarrow> v | None \<Rightarrow> field k c)"
  by (simp add: fn_interpolate setState_field field_upd split: option.split)

lemma frame_Cons:
  "callbacks c = (h, f) # rest \<Longrightarrow> frame E c = fn E f (c\<lparr>callbacks := rest\<rparr>)"
  by (simp add: frame_def)

lemma quiet_final:
  assumes "js_ge (elapsed f c) (Fin 1)" and "quiet (listeners c) (getState (fn E f c))"
  shows "fn E f c =
     (assign_fields (fn_state f) c)
       \<lparr>nextFrame := None,
        emitted := emitted c @ [getState (fn E f c)],
        delivered := delivered c @
          map (\<lambda>j. (j, False, getState (fn E f c))) [0..<length (listeners c)]\<rparr>"
proof -
  let ?c = "c\<lparr>nextFrame := None\<rparr>"
  have g: "getState (fn E f c) = getState (assign_fields (fn_state f) ?c)"
    by (simp add: fn_final [OF assms(1)] setState_getState)
  have q: "quiet (listeners ?c) (getState (assign_fields (fn_state f) ?c))"
    using assms(2) by (simp add: g)
  have a: "assign_fields (fn_state f) ?c = (assign_fields (fn_state f) c)\<lparr>nextFrame := None\<rparr>"
    by (simp add: assign_fields_def Let_def split: option.split)
  show ?thesis
    unfolding g
    by (simp add: fn_final [OF assms(1)] setState_quiet [OF q] isAnimated_def)
      (simp add: a)
qed

lemma elapsed_complete:
  assumes "fn_duration f = Fin d" and "0 \<le> d"
  shows "js_ge (elapsed f c) (Fin 1) \<longleftrightarrow>
    d \<le> real_of_int (clock c - fn_start f) \<and> fn_start f < clock c"
proof (cases "d = 0")
  case True
  then show ?thesis
    by (auto simp: elapsed_def assms(1) signed_inf_def)
next
  case False
  with assms(2) have "0 < d"
    by simp
  moreover from this have "fn_start f < clock c" if "d \<le> real_of_int (clock c - fn_start f)"
    using that by linarith
  ultimately show ?thesis
    by (auto simp: elapsed_def assms(1) pos_le_divide_eq)
qed

text \<open>
  C2. When the host runs the frame callback \<open>fn\<close> of an animation at a time where
  \<open>t = (now - start) / duration\<close> satisfies \<open>t >= 1\<close>, whatever the duration, \<open>fn\<close> does
  one thing: it calls \<open>setState\<close> with the target itself on the camera whose
  \<open>nextFrame\<close> it has set to null. So every field that is a key of the target gets the
  very value the target gives it (the other fields stay), and, unless a subscriber
  answers this last notification by starting another animation, \<open>this.nextFrame\<close> is
  null afterwards and no frame callback has been requested: the callback list is what it
  was without the callback that ran. For a duration \<open>d >= 0\<close> such a frame is one that
  runs \<open>d\<close> or more after the start, and after it (lemma \<open>elapsed_complete\<close>).
\<close>

theorem C2_completion_exact_target:
  assumes "callbacks c = (h, f) # rest" and "js_ge (elapsed f c) (Fin 1)"
  shows "frame E c = setState (fn_state f) (c\<lparr>callbacks := rest, nextFrame := None\<rparr>) \<and>
    (\<forall>k. field k (frame E c) = (case fn_state f k of Some v \<Rightarrow> v | None \<Rightarrow> field k c)) \<and>
    (quiet (listeners c) (getState (frame E c)) \<longrightarrow>
       nextFrame (frame E c) = None \<and> callbacks (frame E c) = rest \<and>
       last_id (frame E c) = last_id c)"
proof -
  let ?c = "c\<lparr>callbacks := rest\<rparr>"
  have fr: "frame E c = fn E f ?c"
    by (rule frame_Cons [OF assms(1)])
  have t: "js_ge (elapsed f ?c) (Fin 1)"
    using assms(2) by (simp add: elapsed_upd)
  have "frame E c = setState (fn_state f) (c\<lparr>callbacks := rest, nextFrame := None\<rparr>)"
    unfolding fr by (rule fn_final [OF t])
  moreover
  have "field k (frame E c) = (case fn_state f k of Some v \<Rightarrow> v | None \<Rightarrow> field k c)" for k
    by (simp add: fr fn_field_final [OF t] field_upd split: option.split)
  moreover have "nextFrame (frame E c) = None \<and> callbacks (frame E c) = rest \<and>
       last_id (frame E c) = last_id c"
    if q: "quiet (listeners c) (getState (frame E c))"
  proof -
    from q have q': "quiet (listeners ?c) (getState (fn E f ?c))"
      by (simp add: fr)
    show ?thesis
      unfolding fr
      by (subst quiet_final [OF t q'], simp add: assign_fields_frame)+
  qed
  ultimately show ?thesis by blast
qed

lemma animating_camera_eq:
  "animating_camera =
     constructor\<lparr>last_id := 1,
       callbacks := [(1, animate_fn [KX \<mapsto> Fin 10] None constructor)],
       nextFrame := Some 1\<rparr>"
  by (simp add: animating_camera_def animate_def requestAnimationFrame_def constructor_def
      animate_fn_def getState_def)

lemma animate_fn_sel:
  "fn_start (animate_fn p opts c) = clock c"
  "fn_initialState (animate_fn p opts c) = getState c"
  "fn_state (animate_fn p opts c) = p"
  "fn_duration (animate_fn p opts c) = assign ANIMATE_DEFAULTS opts"
  by (simp_all add: animate_fn_def)

theorem C2_completion_witness:
  "callbacks (animating_camera\<lparr>clock := 150\<rparr>) =
     [(1, animate_fn [KX \<mapsto> Fin 10] None constructor)] \<and>
   js_ge (elapsed (animate_fn [KX \<mapsto> Fin 10] None constructor)
            (animating_camera\<lparr>clock := 150\<rparr>)) (Fin 1) \<and>
   field KX (frame quadraticInOut (animating_camera\<lparr>clock := 150\<rparr>)) = Fin 10 \<and>
   field KRatio (frame quadraticInOut (animating_camera\<lparr>clock := 150\<rparr>)) = Fin 1 \<and>
   nextFrame (frame quadraticInOut (animating_camera\<lparr>clock := 150\<rparr>)) = None \<and>
   callbacks (frame quadraticInOut (animating_camera\<lparr>clock := 150\<rparr>)) = []"
proof -
  let ?c = "animating_camera\<lparr>clock := 150\<rparr>"
  let ?f = "animate_fn [KX \<mapsto> Fin 10] None constructor"
  have h1: "callbacks ?c = (1, ?f) # []"
    by (simp add: animating_camera_eq)
  have h2: "js_ge (elapsed ?f ?c) (Fin 1)"
    by (simp add: elapsed_def animate_fn_sel assign_def ANIMATE_DEFAULTS_def constructor_def
        animating_camera_eq)
  have q: "quiet (listeners ?c) s" for s
    by (simp add: animating_camera_eq constructor_def quiet_def)
  have x: "field KX ?c = Fin 0" "field KRatio ?c = Fin 1"
    by (simp_all add: animating_camera_eq constructor_def)
  from C2_completion_exact_target [OF h1 h2, where E = quadraticInOut, THEN conjunct2] q h1 h2 x
  show ?thesis
    by (simp add: animate_fn_sel)
qed

lemma newState_animate_fn:
  "newState E (animate_fn p opts c) t k =
     (case p k of
        None \<Rightarrow> None
      | Some v \<Rightarrow> Some (js_add (field k c) (js_mul (js_sub v (field k c)) (E t))))"
  by (simp add: newState_def animate_fn_sel getState_get split: option.split)

text \<open>
  C4. \<open>animate(targetState, ...)\<close> called on a camera \<open>c\<close> requests a frame for a closure
  that holds the snapshot \<open>getState()\<close> of \<open>c\<close>. When the host runs that closure at a
  time where \<open>t >= 1\<close> is false, every field \<open>k\<close> that is a key
  of the target becomes \<open>initialState[k] + (targetState[k] - initialState[k]) * E(t)\<close>,
  with \<open>E\<close> the easing function, and every other field keeps the value it has then.
\<close>

theorem C4_interpolation_frame:
  assumes "callbacks c' = (h, animate_fn p opts c) # rest"
    and "\<not> js_ge (elapsed (animate_fn p opts c) c') (Fin 1)"
  shows "callbacks (animate p opts cb c) =
      cancel_pending c @ [(Suc (last_id c), animate_fn p opts c)] \<and>
    (\<forall>k. field k (frame E c') =
      (case p k of
         Some v \<Rightarrow>
           js_add (field k c)
             (js_mul (js_sub v (field k c)) (E (elapsed (animate_fn p opts c) c')))
       | None \<Rightarrow> field k c'))"
proof (intro conjI allI)
  show "callbacks (animate p opts cb c) =
      cancel_pending c @ [(Suc (last_id c), animate_fn p opts c)]"
    by (rule animate_callbacks)
next
  fix k
  let ?f = "animate_fn p opts c"
  let ?c = "c'\<lparr>callbacks := rest\<rparr>"
  have fr: "frame E c' = fn E ?f ?c"
    by (rule frame_Cons [OF assms(1)])
  have t: "\<not> js_ge (elapsed ?f ?c) (Fin 1)"
    using assms(2) by (simp add: elapsed_upd)
  show "field k (frame E c') =
      (case p k of
         Some v \<Rightarrow> js_add (field k c) (js_mul (js_sub v (field k c)) (E (elapsed ?f c')))
       | None \<Rightarrow> field k c')"
    by (simp add: fr fn_field_interpolate [OF t] newState_animate_fn elapsed_upd field_upd
        split: option.split)
qed

lemma animating_camera_fields:
  "field KX animating_camera = Fin 0"
  "field KY animating_camera = Fin 0"
  "field KAngle animating_camera = Fin 0"
  "field KRatio animating_camera = Fin 1"
  by (simp_all add: animating_camera_eq constructor_def)

lemma constructor_fields:
  "field KX constructor = Fin 0"
  "field KY constructor = Fin 0"
  "field KAngle constructor = Fin 0"
  "field KRatio constructor = Fin 1"
  by (simp_all add: constructor_def)

theorem C4_interpolation_witness:
  "callbacks (animating_camera\<lparr>clock := 75\<rparr>) =
     [(1, animate_fn [KX \<mapsto> Fin 10] None constructor)] \<and>
   \<not> js_ge (elapsed (animate_fn [KX \<mapsto> Fin 10] None constructor)
            (animating_camera\<lparr>clock := 75\<rparr>)) (Fin 1) \<and>
   field KX (frame quadraticInOut (animating_camera\<lparr>clock := 75\<rparr>)) = Fin 5 \<and>
   field KY (frame quadraticInOut (animating_camera\<lparr>clock := 75\<rparr>)) = Fin 0 \<and>
   field KRatio (frame quadraticInOut (animating_camera\<lparr>clock := 75\<rparr>)) = Fin 1"
proof -
  let ?c = "animating_camera\<lparr>clock := 75\<rparr>"
  let ?f = "animate_fn [KX \<mapsto> Fin 10] None constructor"
  have h1: "callbacks ?c = (1, ?f) # []"
    by (simp add: animating_camera_eq)
  have e: "elapsed ?f ?c = Fin (1 / 2)"
    by (simp add: elapsed_def animate_fn_sel assign_def ANIMATE_DEFAULTS_def constructor_def
        animating_camera_eq)
  have h2: "\<not> js_ge (elapsed ?f ?c) (Fin 1)"
    by (simp add: e)
  note th = C4_interpolation_frame [OF h1 h2, where E = quadraticInOut, THEN conjunct2]
  have kx: "field KX (frame quadraticInOut ?c) = Fin 5"
    using th [THEN spec, of KX, unfolded e] by (simp add: constructor_def js_sub_def)
  have ky: "field KY (frame quadraticInOut ?c) = Fin 0"
    using th [THEN spec, of KY] by (simp add: animating_camera_eq constructor_def)
  have kr: "field KRatio (frame quadraticInOut ?c) = Fin 1"
    using th [THEN spec, of KRatio] by (simp add: animating_camera_eq constructor_def)
  from h1 h2 kx ky kr show ?thesis
    by simp
qed

subsection \<open>The last notification\<close>

lemma notify_delivered_prefix: "\<exists>t. delivered (notify i ls s c) = delivered c @ t"
proof (induction ls arbitrary: i c)
  case Nil
  show ?case by simp
next
  case (Cons l ls)
  let ?c = "fold call_do (l (isAnimated c) s) (c\<lparr>delivered := delivered c @ [(i, isAnimated c, s)]\<rparr>)"
  from Cons.IH [of "Suc i" ?c] obtain t where "delivered (notify (Suc i) ls s ?c) = delivered ?c @ t"
    by blast
  then have "delivered (notify i (l # ls) s c) = delivered c @ ((i, isAnimated c, s) # t)"
    by (simp add: calls_frame)
  then show ?case by blast
qed

lemma notify_first:
  "delivered (notify i (l # ls) s c) ! length (delivered c) = (i, isAnimated c, s)"
proof -
  let ?c = "fold call_do (l (isAnimated c) s) (c\<lparr>delivered := delivered c @ [(i, isAnimated c, s)]\<rparr>)"
  from notify_delivered_prefix [of "Suc i" ls s ?c]
  obtain t where "delivered (notify (Suc i) ls s ?c) = delivered ?c @ t"
    by blast
  then have "delivered (notify i (l # ls) s c) = delivered c @ ((i, isAnimated c, s) # t)"
    by (simp add: calls_frame)
  then show ?thesis by simp
qed

lemma setState_first:
  assumes "listeners c = l # ls"
  shows "delivered (setState st c) ! length (delivered c) =
     (0, isAnimated c, getState (setState st c))"
proof -
  let ?c = "(assign_fields st c)\<lparr>emitted := emitted (assign_fields st c) @ [getState (assign_fields st c)]\<rparr>"
  let ?s = "getState (assign_fields st c)"
  have eq: "setState st c = notify 0 (l # ls) ?s ?c"
    using assms by (simp add: setState_def Let_def emit_updated_def assign_fields_frame)
  have dc: "delivered ?c = delivered c" and ia: "isAnimated ?c = isAnimated c"
    by (simp_all add: assign_fields_frame isAnimated_def)
  have "delivered (setState st c) ! length (delivered c) =
      delivered (notify 0 (l # ls) ?s ?c) ! length (delivered ?c)"
    by (simp only: eq dc)
  also have "\<dots> = (0, isAnimated ?c, ?s)"
    by (rule notify_first)
  finally show ?thesis
    by (simp only: ia setState_getState)
qed









section \<open>isAnimated\<close>

lemma handle_ok_call_do: "handle_ok (call_do a c)"
  by (simp add: handle_ok_def call_do_frame)

lemma handle_ok_calls: "handle_ok c \<Longrightarrow> handle_ok (fold call_do as c)"
  by (induction as arbitrary: c) (simp_all add: handle_ok_call_do)

lemma handle_ok_notify: "handle_ok c \<Longrightarrow> handle_ok (notify i ls s c)"
proof (induction ls arbitrary: i c)
  case Nil
  then show ?case by simp
next
  case (Cons l ls)
  from Cons.prems have "handle_ok (c\<lparr>delivered := delivered c @ [(i, isAnimated c, s)]\<rparr>)"
    by (simp add: handle_ok_def)
  then show ?case
    by (simp add: Cons.IH handle_ok_calls)
qed

lemma handle_ok_setState: "handle_ok c \<Longrightarrow> handle_ok (setState st c)"
proof -
  assume "handle_ok c"
  then have "handle_ok ((assign_fields st c)\<lparr>emitted := e\<rparr>)" for e
    by (simp add: handle_ok_def assign_fields_frame)
  then show ?thesis
    by (simp add: setState_def Let_def emit_updated_def handle_ok_notify)
qed

lemma handle_ok_fn: "handle_ok (fn E f c)"
proof (cases "js_ge (elapsed f c) (Fin 1)")
  case True
  have "handle_ok (c\<lparr>nextFrame := None\<rparr>)"
    by (simp add: handle_ok_def)
  then show ?thesis
    by (simp add: fn_final [OF True] handle_ok_setState)
next
  case False
  show ?thesis
    by (simp add: fn_interpolate [OF False] handle_ok_def)
qed

lemma handle_ok_frame: "handle_ok c \<Longrightarrow> handle_ok (frame E c)"
  by (simp add: frame_def handle_ok_fn split: list.split)

lemma handle_ok_step: "handle_ok c \<Longrightarrow> handle_ok (step E e c)"
proof -
  assume ok: "handle_ok c"
  obtain now a where e: "e = (now, a)"
    by (cases e)
  have ok': "handle_ok (c\<lparr>clock := now\<rparr>)"
    using ok by (simp add: handle_ok_def)
  show ?thesis
  proof (cases a)
    case (On l)
    with ok show ?thesis by (simp add: e handle_ok_def)
  next
    case (Do x)
    then show ?thesis by (simp add: e handle_ok_call_do)
  next
    case (SetState st)
    with ok' show ?thesis by (simp add: e handle_ok_setState)
  next
    case RunFrame
    with ok' show ?thesis by (simp add: e handle_ok_frame)
  qed
qed

lemma handle_ok_run: "handle_ok c \<Longrightarrow> handle_ok (run E evs c)"
  unfolding run_def by (induction evs arbitrary: c) (simp_all add: handle_ok_step)

lemma handle_ok_constructor: "handle_ok constructor"
  by (simp add: handle_ok_def constructor_def)

lemma isAnimated_iff: "handle_ok c \<Longrightarrow> isAnimated c \<longleftrightarrow> nextFrame c \<noteq> None"
  by (auto simp: handle_ok_def isAnimated_def split: option.split)

lemma observers_quiet: "list_all observer ls \<Longrightarrow> quiet ls s"
  by (induction ls) (simp_all add: quiet_def observer_def)

lemma idle_step:
  assumes "idle c" and "calm (snd e)"
  shows "idle (step E e c)"
proof -
  obtain now a where e: "e = (now, a)"
    by (cases e)
  let ?c = "c\<lparr>clock := now\<rparr>"
  from assms(1) have i: "nextFrame ?c = None" "callbacks ?c = []" "list_all observer (listeners ?c)"
    by (simp_all add: idle_def)
  show ?thesis
  proof (cases a)
    case (On l)
    with assms show ?thesis by (simp add: e idle_def)
  next
    case (Do x)
    with assms(2) show ?thesis by (simp add: e)
  next
    case (SetState st)
    have "quiet (listeners ?c) (getState (assign_fields st ?c))"
      by (rule observers_quiet [OF i(3)])
    from setState_quiet [OF this] i show ?thesis
      by (simp add: e SetState idle_def assign_fields_frame)
  next
    case RunFrame
    with i assms(1) show ?thesis
      by (simp add: e frame_def idle_def)
  qed
qed

lemma idle_run: "idle c \<Longrightarrow> list_all (\<lambda>e. calm (snd e)) evs \<Longrightarrow> idle (run E evs c)"
  unfolding run_def by (induction evs arbitrary: c) (simp_all add: idle_step)

lemma idle_constructor: "idle constructor"
  by (simp add: idle_def constructor_def)

text \<open>
  C5. \<open>isAnimated()\<close> is true exactly when \<open>this.nextFrame\<close> holds a request id, in every
  camera that a new camera can become. It is false on a new camera and stays false as
  long as nothing calls an animating method; it is true when \<open>animate\<close> returns; it
  is true after a frame with \<open>t >= 1\<close> false; and it is false after the frame with
  \<open>t >= 1\<close>, unless a subscriber answers that last notification by a new animation.
\<close>

theorem C5_isAnimated_lifecycle:
  "(isAnimated (run E evs constructor) \<longleftrightarrow> nextFrame (run E evs constructor) \<noteq> None) \<and>
   (list_all (\<lambda>e. calm (snd e)) evs \<longrightarrow> \<not> isAnimated (run E evs constructor)) \<and>
   isAnimated (animate p opts cb c) \<and>
   (callbacks c = (h, f) # rest \<and> \<not> js_ge (elapsed f c) (Fin 1) \<longrightarrow>
      isAnimated (frame E c)) \<and>
   (callbacks c = (h, f) # rest \<and> js_ge (elapsed f c) (Fin 1) \<and>
    quiet (listeners c) (getState (frame E c)) \<longrightarrow>
      \<not> isAnimated (frame E c))"
proof (intro conjI impI)
  show "isAnimated (run E evs constructor) \<longleftrightarrow> nextFrame (run E evs constructor) \<noteq> None"
    by (rule isAnimated_iff [OF handle_ok_run [OF handle_ok_constructor]])
next
  assume "list_all (\<lambda>e. calm (snd e)) evs"
  from idle_run [OF idle_constructor this, of E]
  show "\<not> isAnimated (run E evs constructor)"
    by (simp add: idle_def isAnimated_def)
next
  show "isAnimated (animate p opts cb c)"
    by (simp add: isAnimated_def animate_handle)
next
  assume a: "callbacks c = (h, f) # rest \<and> \<not> js_ge (elapsed f c) (Fin 1)"
  then have t: "\<not> js_ge (elapsed f (c\<lparr>callbacks := rest\<rparr>)) (Fin 1)"
    by (simp add: elapsed_upd)
  from a have "frame E c = fn E f (c\<lparr>callbacks := rest\<rparr>)"
    by (simp add: frame_Cons)
  then show "isAnimated (frame E c)"
    by (simp add: fn_interpolate [OF t] isAnimated_def)
next
  assume a: "callbacks c = (h, f) # rest \<and> js_ge (elapsed f c) (Fin 1) \<and>
    quiet (listeners c) (getState (frame E c))"
  then have t: "js_ge (elapsed f (c\<lparr>callbacks := rest\<rparr>)) (Fin 1)"
    by (simp add: elapsed_upd)
  from a have fr: "frame E c = fn E f (c\<lparr>callbacks := rest\<rparr>)"
    by (simp add: frame_Cons)
  from a have q: "quiet (listeners (c\<lparr>callbacks := rest\<rparr>)) (getState (fn E f (c\<lparr>callbacks := rest\<rparr>)))"
    by (simp add: fr)
  show "\<not> isAnimated (frame E c)"
    unfolding fr by (subst quiet_final [OF t q]) (simp add: isAnimated_def)
qed

theorem C5_lifecycle_witness:
  "list_all (\<lambda>e. calm (snd e)) [(0, SetState [KX \<mapsto> Fin 5]), (16, RunFrame)] \<and>
   \<not> isAnimated (run quadraticInOut [(0, SetState [KX \<mapsto> Fin 5]), (16, RunFrame)] constructor) \<and>
   isAnimated animating_camera \<and>
   callbacks (animating_camera\<lparr>clock := 75\<rparr>) =
     [(1, animate_fn [KX \<mapsto> Fin 10] None constructor)] \<and>
   \<not> js_ge (elapsed (animate_fn [KX \<mapsto> Fin 10] None constructor)
            (animating_camera\<lparr>clock := 75\<rparr>)) (Fin 1) \<and>
   isAnimated (frame quadraticInOut (animating_camera\<lparr>clock := 75\<rparr>)) \<and>
   js_ge (elapsed (animate_fn [KX \<mapsto> Fin 10] None constructor)
            (animating_camera\<lparr>clock := 150\<rparr>)) (Fin 1) \<and>
   \<not> isAnimated (frame quadraticInOut (animating_camera\<lparr>clock := 150\<rparr>))"
proof -
  let ?f = "animate_fn [KX \<mapsto> Fin 10] None constructor"
  let ?evs = "[(0, SetState [KX \<mapsto> Fin 5]), (16, RunFrame)]"
  have calm: "list_all (\<lambda>e. calm (snd e)) ?evs"
    by simp
  have cb: "callbacks (animating_camera\<lparr>clock := now\<rparr>) = (1, ?f) # []" for now
    by (simp add: animating_camera_eq)
  have e: "elapsed ?f (animating_camera\<lparr>clock := now\<rparr>) = Fin (real_of_int now / 150)" for now
    by (simp add: elapsed_def animate_fn_sel assign_def ANIMATE_DEFAULTS_def constructor_def
        animating_camera_eq)
  have t1: "\<not> js_ge (elapsed ?f (animating_camera\<lparr>clock := 75\<rparr>)) (Fin 1)"
    by (simp add: e)
  have t2: "js_ge (elapsed ?f (animating_camera\<lparr>clock := 150\<rparr>)) (Fin 1)"
    by (simp add: e)
  have q: "quiet (listeners (animating_camera\<lparr>clock := now\<rparr>)) s" for now s
    by (simp add: animating_camera_eq constructor_def quiet_def)
  have 1: "\<not> isAnimated (run quadraticInOut ?evs constructor)"
    using C5_isAnimated_lifecycle [where E = quadraticInOut and evs = ?evs] calm by blast
  have 2: "isAnimated animating_camera"
    unfolding animating_camera_def
    using C5_isAnimated_lifecycle [where c = constructor] by blast
  have 3: "isAnimated (frame quadraticInOut (animating_camera\<lparr>clock := 75\<rparr>))"
    using C5_isAnimated_lifecycle [where E = quadraticInOut
        and c = "animating_camera\<lparr>clock := 75\<rparr>" and h = 1 and f = ?f and rest = "[]"]
      cb t1 by blast
  have 4: "\<not> isAnimated (frame quadraticInOut (animating_camera\<lparr>clock := 150\<rparr>))"
    using C5_isAnimated_lifecycle [where E = quadraticInOut
        and c = "animating_camera\<lparr>clock := 150\<rparr>" and h = 1 and f = ?f and rest = "[]"]
      cb t2 q by blast
  from calm 1 2 cb [of 75] t1 3 t2 4 show ?thesis
    by simp
qed

section \<open>The callback argument\<close>

lemma fn_invoked: "invoked (fn E f c) = invoked c"
proof (cases "js_ge (elapsed f c) (Fin 1)")
  case True
  then show ?thesis by (simp add: fn_final setState_frame)
next
  case False
  then show ?thesis by (simp add: fn_interpolate setState_frame)
qed

lemma frame_invoked: "invoked (frame E c) = invoked c"
  by (simp add: frame_def fn_invoked split: list.split)

lemma step_invoked: "invoked (step E e c) = invoked c"
proof -
  obtain now a where e: "e = (now, a)"
    by (cases e)
  show ?thesis
    by (cases a) (simp_all add: e call_do_frame setState_frame frame_invoked)
qed

lemma run_invoked: "invoked (run E evs c) = invoked c"
  unfolding run_def by (induction evs arbitrary: c) (simp_all add: step_invoked)

text \<open>
  C9. No method and no frame of the camera invokes a callback: the trace of invoked
  callbacks is the same after any sequence of subscriptions, method calls and frames,
  and what \<open>animate\<close>, \<open>pan\<close> and \<open>zoom\<close> return does not depend on the callback they
  were given.
\<close>

theorem C9_callback_never_invoked:
  "invoked (run E evs c) = invoked c \<and>
   invoked (animate p opts cb c) = invoked c \<and>
   invoked (frame E c) = invoked c \<and>
   animate p opts cb c = animate p opts None c \<and>
   pan dx dy opts cb c = pan dx dy opts None c \<and>
   zoom factor opts cb c = zoom factor opts None c"
  by (simp add: run_invoked animate_frame frame_invoked)
    (simp add: animate_def pan_def zoom_def)

section \<open>Animations that run to their end\<close>

lemma elapsed_clock:
  "elapsed f (c\<lparr>clock := now\<rparr>) =
     js_div (Fin (real_of_int (now - fn_start f))) (fn_duration f)"
  by (simp add: elapsed_def)

lemma quiet_interpolate:
  assumes "\<not> js_ge (elapsed f c) (Fin 1)"
    and "quiet (listeners c) (getState (assign_fields (newState E f (elapsed f c)) c))"
  shows "fn E f c =
     (assign_fields (newState E f (elapsed f c)) c)
       \<lparr>emitted := emitted c @ [getState (assign_fields (newState E f (elapsed f c)) c)],
        delivered := delivered c @
          map (\<lambda>j. (j, isAnimated c, getState (assign_fields (newState E f (elapsed f c)) c)))
            [0..<length (listeners c)],
        last_id := Suc (last_id c),
        callbacks := callbacks c @ [(Suc (last_id c), f)],
        nextFrame := Some (Suc (last_id c))\<rparr>"
  by (simp add: fn_interpolate [OF assms(1)] setState_quiet [OF assms(2)] assign_fields_frame)

lemma observers_final:
  assumes "js_ge (elapsed f c) (Fin 1)" and "list_all observer (listeners c)"
  shows "nextFrame (fn E f c) = None" and "callbacks (fn E f c) = callbacks c"
    and "listeners (fn E f c) = listeners c"
    and "field k (fn E f c) = (case fn_state f k of Some v \<Rightarrow> v | None \<Rightarrow> field k c)"
proof -
  have q: "quiet (listeners c) (getState (fn E f c))"
    by (rule observers_quiet [OF assms(2)])
  show "nextFrame (fn E f c) = None" "callbacks (fn E f c) = callbacks c"
    "listeners (fn E f c) = listeners c"
    by (subst quiet_final [OF assms(1) q], simp add: assign_fields_frame)+
  show "field k (fn E f c) = (case fn_state f k of Some v \<Rightarrow> v | None \<Rightarrow> field k c)"
    by (rule fn_field_final [OF assms(1)])
qed

lemma observers_interpolate:
  assumes "\<not> js_ge (elapsed f c) (Fin 1)" and "list_all observer (listeners c)"
  shows "nextFrame (fn E f c) = Some (Suc (last_id c))"
    and "callbacks (fn E f c) = callbacks c @ [(Suc (last_id c), f)]"
    and "listeners (fn E f c) = listeners c"
proof -
  have q: "quiet (listeners c) (getState (assign_fields (newState E f (elapsed f c)) c))"
    by (rule observers_quiet [OF assms(2)])
  show "nextFrame (fn E f c) = Some (Suc (last_id c))"
    "callbacks (fn E f c) = callbacks c @ [(Suc (last_id c), f)]"
    "listeners (fn E f c) = listeners c"
    by (subst quiet_interpolate [OF assms(1) q], simp add: assign_fields_frame)+
qed

lemma run_simps:
  "run E [] c = c"
  "run E (e # evs) c = run E evs (step E e c)"
  by (simp_all add: run_def)

lemma frames_simps:
  "frames [] = []"
  "frames (now # ts) = (now, RunFrame) # frames ts"
  by (simp_all add: frames_def)

lemma frames_Nil_callbacks:
  assumes "callbacks c = []"
  shows "run E (frames ts) c = (if ts = [] then c else c\<lparr>clock := last ts\<rparr>)"
  using assms
proof (induction ts arbitrary: c)
  case Nil
  show ?case by (simp add: run_simps frames_simps)
next
  case (Cons now ts)
  have s: "step E (now, RunFrame) c = c\<lparr>clock := now\<rparr>"
    using Cons.prems by (simp add: frame_def)
  have "run E (frames (now # ts)) c = run E (frames ts) (c\<lparr>clock := now\<rparr>)"
    by (simp only: frames_simps run_simps s)
  also have "\<dots> = (if ts = [] then c\<lparr>clock := now\<rparr> else c\<lparr>clock := now, clock := last ts\<rparr>)"
    using Cons.prems by (subst Cons.IH) simp_all
  finally show ?case by simp
qed

lemma animation_completes:
  assumes "list_all observer (listeners c)" and "callbacks c = [(h, f)]"
    and "\<exists>now\<in>set ts. js_ge (js_div (Fin (real_of_int (now - fn_start f))) (fn_duration f)) (Fin 1)"
  shows "callbacks (run E (frames ts) c) = [] \<and> nextFrame (run E (frames ts) c) = None \<and>
    (\<forall>k v. fn_state f k = Some v \<longrightarrow> field k (run E (frames ts) c) = v)"
  using assms
proof (induction ts arbitrary: c h)
  case Nil
  then show ?case by simp
next
  case (Cons now ts)
  let ?c = "c\<lparr>clock := now, callbacks := []\<rparr>"
  let ?c1 = "fn E f ?c"
  have obs: "list_all observer (listeners ?c)"
    using Cons.prems(1) by simp
  have s: "step E (now, RunFrame) c = ?c1"
    using Cons.prems(2) by (simp add: frame_def)
  have r: "run E (frames (now # ts)) c = run E (frames ts) ?c1"
    by (simp only: frames_simps run_simps s)
  have el: "elapsed f ?c = js_div (Fin (real_of_int (now - fn_start f))) (fn_duration f)"
    by (simp add: elapsed_def)
  show ?case
  proof (cases "js_ge (elapsed f ?c) (Fin 1)")
    case True
    note fin = observers_final [OF True obs, where E = E]
    have cb: "callbacks ?c1 = []"
      by (simp add: fin(2))
    have "field k (run E (frames ts) ?c1) = field k ?c1" for k
      by (simp add: frames_Nil_callbacks [OF cb] field_upd)
    moreover have "callbacks (run E (frames ts) ?c1) = []"
      "nextFrame (run E (frames ts) ?c1) = None"
      by (simp_all add: frames_Nil_callbacks [OF cb] cb fin(1))
    ultimately show ?thesis
      unfolding r by (simp add: fin(4))
  next
    case False
    note int = observers_interpolate [OF False obs, where E = E]
    have "list_all observer (listeners ?c1)"
      using obs by (simp add: int(3))
    moreover have "callbacks ?c1 = [(Suc (last_id ?c), f)]"
      by (simp add: int(2))
    moreover from Cons.prems(3) False
    have "\<exists>now\<in>set ts. js_ge (js_div (Fin (real_of_int (now - fn_start f))) (fn_duration f)) (Fin 1)"
      by (auto simp: el)
    ultimately show ?thesis
      unfolding r by (rule Cons.IH)
  qed
qed

lemma single_flight_cancel: "single_flight c \<Longrightarrow> cancel_pending c = []"
  by (cases "callbacks c") (auto simp: single_flight_def cancel_pending_def split: option.split)

lemma single_flight_animate:
  "single_flight c \<Longrightarrow>
   callbacks (animate p opts cb c) = [(Suc (last_id c), animate_fn p opts c)]"
  by (simp add: animate_callbacks single_flight_cancel)

text \<open>
  An \<open>animate\<close> call made from outside a frame, on a camera with one animation in
  flight at most, supersedes it: its own callback is the only one pending, and the
  target of this call is what the camera holds once a frame has run \<open>d\<close> or more after
  the call, for a duration \<open>d > 0\<close> and subscribers that only observe.
\<close>

lemma animate_reaches_target:
  assumes "single_flight c" and "list_all observer (listeners c)"
    and "assign ANIMATE_DEFAULTS opts = Fin d" and "0 < d"
    and "\<exists>now\<in>set ts. d \<le> real_of_int (now - clock c)"
  shows "callbacks (run E (frames ts) (animate p opts cb c)) = [] \<and>
    nextFrame (run E (frames ts) (animate p opts cb c)) = None \<and>
    (\<forall>k v. p k = Some v \<longrightarrow> field k (run E (frames ts) (animate p opts cb c)) = v)"
proof -
  let ?f = "animate_fn p opts c"
  have obs: "list_all observer (listeners (animate p opts cb c))"
    using assms(2) by (simp add: animate_frame)
  have cb: "callbacks (animate p opts cb c) = [(Suc (last_id c), ?f)]"
    by (rule single_flight_animate [OF assms(1)])
  have "js_ge (js_div (Fin (real_of_int (now - fn_start ?f))) (fn_duration ?f)) (Fin 1)
      \<longleftrightarrow> d \<le> real_of_int (now - clock c)" for now
    using assms(4) by (simp add: animate_fn_sel assms(3) pos_le_divide_eq)
  with assms(5)
  have "\<exists>now\<in>set ts. js_ge (js_div (Fin (real_of_int (now - fn_start ?f))) (fn_duration ?f)) (Fin 1)"
    by simp
  from animation_completes [OF obs cb this, where E = E] show ?thesis
    by (simp add: animate_fn_sel)
qed

lemma default_duration_elapsed:
  assumes "\<exists>now\<in>set ts. start + 150 \<le> now"
  shows "\<exists>now\<in>set ts. 150 \<le> real_of_int (now - start)"
proof -
  from assms obtain now where n: "now \<in> set ts" "start + 150 \<le> now"
    by blast
  from n(2) have "150 \<le> real_of_int (now - start)"
    by linarith
  with n(1) show ?thesis
    by blast
qed

text \<open>
  C7. \<open>zoom(factor, options, callback)\<close> replaces an omitted or falsy factor (\<open>0\<close>, NaN)
  by 1.5 and is \<open>animate({ratio: this.ratio / factor}, options, callback)\<close>. From ratio
  1, with one animation in flight at most and subscribers that only observe, \<open>zoom(2)\<close>
  with the default duration leaves the ratio at 0.5 once a frame has run 150 ms or
  more after the call.
\<close>

theorem C7_zoom:
  "zoom None opts cb c = zoom (Some (Fin 1.5)) opts cb c \<and>
   (\<not> truthy fa \<longrightarrow> zoom (Some fa) opts cb c = zoom (Some (Fin 1.5)) opts cb c) \<and>
   (truthy fa \<longrightarrow>
      zoom (Some fa) opts cb c = animate [KRatio \<mapsto> js_div (cam_ratio c) fa] opts cb c) \<and>
   (single_flight c \<and> list_all observer (listeners c) \<and> cam_ratio c = Fin 1 \<and>
    (\<exists>now\<in>set ts. clock c + 150 \<le> now) \<longrightarrow>
      cam_ratio (run E (frames ts) (zoom (Some (Fin 2)) None cb c)) = Fin 0.5)"
proof (intro conjI impI)
  show "zoom None opts cb c = zoom (Some (Fin 1.5)) opts cb c"
    by (simp add: zoom_def)
  show "zoom (Some fa) opts cb c = zoom (Some (Fin 1.5)) opts cb c" if "\<not> truthy fa"
    using that by (simp add: zoom_def)
  show "zoom (Some fa) opts cb c = animate [KRatio \<mapsto> js_div (cam_ratio c) fa] opts cb c"
    if "truthy fa"
    using that by (simp add: zoom_def)
next
  assume a: "single_flight c \<and> list_all observer (listeners c) \<and> cam_ratio c = Fin 1 \<and>
    (\<exists>now\<in>set ts. clock c + 150 \<le> now)"
  have z: "zoom (Some (Fin 2)) None cb c = animate [KRatio \<mapsto> Fin (1 / 2)] None cb c"
    using a by (simp add: zoom_def)
  have d: "assign ANIMATE_DEFAULTS None = Fin 150"
    by (simp add: assign_def ANIMATE_DEFAULTS_def)
  from a have "\<exists>now\<in>set ts. clock c + 150 \<le> now"
    by blast
  then have t: "\<exists>now\<in>set ts. 150 \<le> real_of_int (now - clock c)"
    by (rule default_duration_elapsed)
  from a have sf: "single_flight c" and ob: "list_all observer (listeners c)"
    by simp_all
  have pos: "(0::real) < 150"
    by simp
  note r = animate_reaches_target [OF sf ob d pos t,
      where p = "[KRatio \<mapsto> Fin (1 / 2)]" and E = E and cb = cb,
      THEN conjunct2, THEN conjunct2, rule_format]
  have "field KRatio (run E (frames ts) (animate [KRatio \<mapsto> Fin (1 / 2)] None cb c)) = Fin (1 / 2)"
    by (rule r) simp
  then show "cam_ratio (run E (frames ts) (zoom (Some (Fin 2)) None cb c)) = Fin 0.5"
    by (simp add: z)
qed

lemma single_flight_constructor: "single_flight constructor"
  by (simp add: single_flight_def constructor_def)

theorem C7_zoom_witness:
  "\<not> truthy (Fin 0) \<and> \<not> truthy NaN \<and>
   zoom (Some (Fin 0)) None None constructor = zoom (Some (Fin 1.5)) None None constructor \<and>
   zoom (Some NaN) None None constructor = zoom (Some (Fin 1.5)) None None constructor \<and>
   truthy (Fin 2) \<and>
   zoom (Some (Fin 2)) None None constructor =
     animate [KRatio \<mapsto> js_div (cam_ratio constructor) (Fin 2)] None None constructor \<and>
   single_flight constructor \<and> list_all observer (listeners constructor) \<and>
   cam_ratio constructor = Fin 1 \<and> (\<exists>now\<in>set [16, 100, 160]. clock constructor + 150 \<le> now) \<and>
   cam_ratio (run quadraticInOut (frames [16, 100, 160])
     (zoom (Some (Fin 2)) None None constructor)) = Fin 0.5"
proof -
  have f: "\<not> truthy (Fin 0)" "\<not> truthy NaN" "truthy (Fin 2)"
    by simp_all
  have c: "single_flight constructor" "list_all observer (listeners constructor)"
    "cam_ratio constructor = Fin 1" "\<exists>now\<in>set [16, 100, 160]. clock constructor + 150 \<le> now"
    by (simp_all add: single_flight_constructor) (simp_all add: constructor_def)
  from f c
    C7_zoom [where fa = "Fin 0" and opts = None and cb = None and c = constructor]
    C7_zoom [where fa = NaN and opts = None and cb = None and c = constructor]
    C7_zoom [where fa = "Fin 2" and opts = None and cb = None and c = constructor
      and ts = "[16, 100, 160]" and E = quadraticInOut]
  show ?thesis
    by blast
qed

text \<open>
  C8. \<open>pan(dx, dy, options, callback)\<close> is \<open>animate({x: this.x - dx, y: this.y - dy},
  options, callback)\<close> with \<open>this.x\<close> and \<open>this.y\<close> read when \<open>pan\<close> is called. From
  \<open>x = 10\<close>, \<open>y = 10\<close>, with one animation in flight at most and subscribers that only
  observe, \<open>pan(3, -2)\<close> with the default duration leaves \<open>x = 7\<close> and \<open>y = 12\<close> once a
  frame has run 150 ms or more after the call.
\<close>

theorem C8_pan:
  "pan dx dy opts cb c =
     animate [KX \<mapsto> js_sub (cam_x c) dx, KY \<mapsto> js_sub (cam_y c) dy] opts cb c \<and>
   (single_flight c \<and> list_all observer (listeners c) \<and>
    cam_x c = Fin 10 \<and> cam_y c = Fin 10 \<and> (\<exists>now\<in>set ts. clock c + 150 \<le> now) \<longrightarrow>
      cam_x (run E (frames ts) (pan (Fin 3) (Fin (- 2)) None cb c)) = Fin 7 \<and>
      cam_y (run E (frames ts) (pan (Fin 3) (Fin (- 2)) None cb c)) = Fin 12)"
proof (intro conjI impI)
  show "pan dx dy opts cb c =
     animate [KX \<mapsto> js_sub (cam_x c) dx, KY \<mapsto> js_sub (cam_y c) dy] opts cb c"
    by (simp add: pan_def)
next
  assume a: "single_flight c \<and> list_all observer (listeners c) \<and>
    cam_x c = Fin 10 \<and> cam_y c = Fin 10 \<and> (\<exists>now\<in>set ts. clock c + 150 \<le> now)"
  let ?p = "[KX \<mapsto> Fin 7, KY \<mapsto> Fin 12]"
  have z: "pan (Fin 3) (Fin (- 2)) None cb c = animate ?p None cb c"
    using a by (simp add: pan_def js_sub_def)
  have d: "assign ANIMATE_DEFAULTS None = Fin 150"
    by (simp add: assign_def ANIMATE_DEFAULTS_def)
  from a have "\<exists>now\<in>set ts. clock c + 150 \<le> now"
    by blast
  then have t: "\<exists>now\<in>set ts. 150 \<le> real_of_int (now - clock c)"
    by (rule default_duration_elapsed)
  from a have sf: "single_flight c" and ob: "list_all observer (listeners c)"
    by simp_all
  have pos: "(0::real) < 150"
    by simp
  note r = animate_reaches_target [OF sf ob d pos t, where p = ?p and E = E and cb = cb,
      THEN conjunct2, THEN conjunct2, rule_format]
  have "field KX (run E (frames ts) (animate ?p None cb c)) = Fin 7"
    "field KY (run E (frames ts) (animate ?p None cb c)) = Fin 12"
    by (rule r, simp)+
  then show "cam_x (run E (frames ts) (pan (Fin 3) (Fin (- 2)) None cb c)) = Fin 7"
    "cam_y (run E (frames ts) (pan (Fin 3) (Fin (- 2)) None cb c)) = Fin 12"
    by (simp_all add: z)
qed

theorem C8_pan_witness:
  "single_flight (constructor\<lparr>cam_x := Fin 10, cam_y := Fin 10\<rparr>) \<and>
   list_all observer (listeners (constructor\<lparr>cam_x := Fin 10, cam_y := Fin 10\<rparr>)) \<and>
   (\<exists>now\<in>set [16, 100, 160]. clock (constructor\<lparr>cam_x := Fin 10, cam_y := Fin 10\<rparr>) + 150 \<le> now) \<and>
   cam_x (run quadraticInOut (frames [16, 100, 160])
     (pan (Fin 3) (Fin (- 2)) None None (constructor\<lparr>cam_x := Fin 10, cam_y := Fin 10\<rparr>))) = Fin 7 \<and>
   cam_y (run quadraticInOut (frames [16, 100, 160])
     (pan (Fin 3) (Fin (- 2)) None None (constructor\<lparr>cam_x := Fin 10, cam_y := Fin 10\<rparr>))) = Fin 12"
proof -
  let ?c = "constructor\<lparr>cam_x := Fin 10, cam_y := Fin 10\<rparr>"
  have c: "single_flight ?c" "list_all observer (listeners ?c)"
    "cam_x ?c = Fin 10" "cam_y ?c = Fin 10" "\<exists>now\<in>set [16, 100, 160]. clock ?c + 150 \<le> now"
    by (simp_all add: single_flight_def constructor_def)
  from c C8_pan [where c = ?c and ts = "[16, 100, 160]" and E = quadraticInOut and cb = None]
  show ?thesis
    by blast
qed

section \<open>Superseding an animation\<close>

lemmas eval_defs = run_simps step.simps call_do.simps animate_def requestAnimationFrame_def
  cancelAnimationFrame_def animate_fn_def getState_def assign_def ANIMATE_DEFAULTS_def
  frame_def fn_def elapsed_def newState_def setState_def assign_fields_def emit_updated_def
  notify.simps isAnimated_def js_sub_def Let_def

text \<open>
  C1. The claim: at most one animation is in flight at any time, a frame callback of a
  superseded animation never runs after the superseding \<open>animate\<close> call, and only the
  second call's target is reached in the end. The code breaks it when the second call
  comes from a subscriber notified by an interpolation frame of the first animation:
  \<open>animate\<close> cancels the request \<open>this.nextFrame\<close> names, which is the callback that is
  running, and \<open>fn\<close> then requests its next frame all the same. In the run below two
  callbacks are pending after the frame at 500 (requests 2 and 3, towards \<open>x = 100\<close> and
  \<open>x = 10\<close>); the second animation ends at 600 with \<open>x = 100\<close>; the callback of the
  first one runs after that (\<open>x = 6.8\<close>) and the camera ends at \<open>x = 10\<close>, the target of
  the first call.
\<close>

theorem C1_reentrant_animate_two_in_flight:
  "map fst (callbacks (run quadraticInOut superseding_run constructor)) = [2, 3] \<and>
   map (fn_state \<circ> snd) (callbacks (run quadraticInOut superseding_run constructor)) =
     [[KX \<mapsto> Fin 100], [KX \<mapsto> Fin 10]] \<and>
   nextFrame (run quadraticInOut superseding_run constructor) = Some 3 \<and>
   cam_x (run quadraticInOut (superseding_run @ frames [600]) constructor) = Fin 100 \<and>
   cam_x (run quadraticInOut (superseding_run @ frames [600, 600]) constructor) = Fin 6.8 \<and>
   cam_x (run quadraticInOut (superseding_run @ frames [600, 600, 1000]) constructor) = Fin 10 \<and>
   callbacks (run quadraticInOut (superseding_run @ frames [600, 600, 1000]) constructor) = []"
  by (simp add: superseding_run_def constructor_def eval_defs reentrant_def frames_def)

text \<open>
  What does hold: as long as every subscriber only observes, at most one frame callback
  is pending in every camera a new camera can become, \<open>this.nextFrame\<close> names it, and
  \<open>animate\<close> leaves its own callback as the only one.
\<close>

lemma single_flight_call_do:
  assumes "single_flight c"
  shows "single_flight (call_do a c)"
proof -
  have "\<exists>f. callbacks (call_do a c) = [(Suc (last_id c), f)]"
    by (cases a) (simp_all add: pan_def zoom_def Let_def single_flight_animate [OF assms])
  then show ?thesis
    by (auto simp: single_flight_def call_do_frame)
qed

lemma single_flight_frame:
  assumes "single_flight c" and "list_all observer (listeners c)"
  shows "single_flight (frame E c)"
proof (cases "callbacks c")
  case Nil
  with assms(1) show ?thesis by (simp add: frame_def)
next
  case (Cons e rest)
  with assms(1) have rest: "rest = []"
    by (simp add: single_flight_def)
  obtain h f where e: "e = (h, f)"
    by (cases e)
  let ?c = "c\<lparr>callbacks := []\<rparr>"
  have fr: "frame E c = fn E f ?c"
    using Cons by (simp add: frame_def e rest)
  have obs: "list_all observer (listeners ?c)"
    using assms(2) by simp
  show ?thesis
  proof (cases "js_ge (elapsed f ?c) (Fin 1)")
    case True
    from observers_final(2) [OF True obs, of E] show ?thesis
      by (simp add: fr single_flight_def)
  next
    case False
    from observers_interpolate(1,2) [OF False obs, of E] show ?thesis
      by (simp add: fr single_flight_def)
  qed
qed

lemma single_flight_cong:
  "callbacks c' = callbacks c \<Longrightarrow> nextFrame c' = nextFrame c \<Longrightarrow>
   single_flight c' = single_flight c"
  by (simp add: single_flight_def)

lemma single_flight_upd:
  "single_flight (c\<lparr>clock := now\<rparr>) = single_flight c"
  "single_flight (c\<lparr>clock := now, listeners := ls\<rparr>) = single_flight c"
  by (rule single_flight_cong; simp)+

lemma observers_setState:
  assumes "list_all observer (listeners c)"
  shows "callbacks (setState st c) = callbacks c" and "nextFrame (setState st c) = nextFrame c"
proof -
  have "quiet (listeners c) (getState (assign_fields st c))"
    by (rule observers_quiet [OF assms])
  from setState_quiet [OF this]
  show "callbacks (setState st c) = callbacks c" "nextFrame (setState st c) = nextFrame c"
    by (simp_all add: assign_fields_frame)
qed

lemma single_flight_step:
  assumes "single_flight c \<and> list_all observer (listeners c)" and "orderly (snd e)"
  shows "single_flight (step E e c) \<and> list_all observer (listeners (step E e c))"
proof -
  obtain now a where e: "e = (now, a)"
    by (cases e)
  let ?c = "c\<lparr>clock := now\<rparr>"
  from assms(1) have sf: "single_flight ?c" and obs: "list_all observer (listeners ?c)"
    by (simp_all add: single_flight_upd)
  show ?thesis
  proof (cases a)
    case (On l)
    with assms show ?thesis by (simp add: e single_flight_upd)
  next
    case (Do x)
    with obs show ?thesis by (simp add: e single_flight_call_do [OF sf] call_do_frame)
  next
    case (SetState st)
    have "single_flight (setState st ?c) = single_flight ?c"
      by (rule single_flight_cong) (rule observers_setState [OF obs])+
    with sf have "single_flight (setState st ?c)"
      by simp
    with obs show ?thesis
      by (simp add: e SetState setState_frame)
  next
    case RunFrame
    have "listeners (frame E ?c) = listeners ?c"
      by (simp add: frame_def fn_def Let_def setState_frame requestAnimationFrame_def
          split: list.split)
    with single_flight_frame [OF sf obs, of E] obs show ?thesis
      by (simp add: e RunFrame)
  qed
qed

lemma single_flight_run:
  assumes "list_all (\<lambda>e. orderly (snd e)) evs"
  shows "length (callbacks (run E evs constructor)) \<le> 1"
proof -
  have "single_flight c \<and> list_all observer (listeners c) \<Longrightarrow>
      single_flight (run E evs c) \<and> list_all observer (listeners (run E evs c))" for c
    using assms
  proof (induction evs arbitrary: c)
    case Nil
    then show ?case by (simp add: run_simps)
  next
    case (Cons e evs)
    from Cons.prems have "single_flight (step E e c) \<and> list_all observer (listeners (step E e c))"
      by (simp add: single_flight_step)
    with Cons.prems(2) show ?case
      by (simp add: run_simps Cons.IH)
  qed
  moreover have "list_all observer (listeners constructor)"
    by (simp add: constructor_def)
  ultimately have "single_flight (run E evs constructor)"
    using single_flight_constructor by blast
  then show ?thesis
    by (simp add: single_flight_def)
qed

end
